theory Spec2Isabelle
  imports Main "HOL-Library.Multiset"
begin

section \<open>The API model (api.go)\<close>

text \<open>
  The declarations of a package carry values of the interface \<^verbatim>\<open>types.Type\<close> of the Go
  standard library. The library is not part of the repository; its type descriptors are
  modelled by the datatype \<open>gotype\<close> (the kinds of descriptor the library has), and a value of
  the interface is a \<open>gotype option\<close>, \<open>None\<close> being the nil interface, which is what the
  zero value of a declaration holds.
\<close>

datatype ChanDir = SendRecv | SendOnly | RecvOnly

datatype gotype =
    Basic string
  | Named string string
  | Pointer gotype
  | Slice gotype
  | Array nat gotype
  | MapOf gotype gotype
  | Chan ChanDir gotype
  | Signature "gotype list" "gotype list"

type_synonym Type = "gotype option"

record TypeDef =
  TypeDef_Name :: string
  TypeDef_Type :: Type
  TypeDef_Alias :: bool

record Var =
  Var_Name :: string
  Var_Type :: Type

record Const =
  Const_Name :: string
  Const_Type :: Type
  Const_Value :: string

record Func =
  Func_Name :: string
  Func_Args :: "Type list"
  Func_Return :: "Type list"

record Interface =
  Interface_Name :: string
  Interface_Methods :: "Func list"

record Field =
  Field_Name :: string
  Field_Type :: Type

record Struct =
  Struct_Name :: string
  Struct_Fields :: "Field list"
  Struct_Methods :: "Func list"

record Package =
  Package_Name :: string
  Package_Path :: string
  Package_Vars :: "Var list"
  Package_Consts :: "Const list"
  Package_Funcs :: "Func list"
  Package_Structs :: "Struct list"
  Package_Interfaces :: "Interface list"
  Package_Types :: "TypeDef list"

type_synonym API = "Package list"

text \<open>The zero values Go gives to the second result of a failed map lookup.\<close>

definition zeroTypeDef :: TypeDef where
  "zeroTypeDef = \<lparr>TypeDef_Name = [], TypeDef_Type = None, TypeDef_Alias = False\<rparr>"

definition zeroVar :: Var where
  "zeroVar = \<lparr>Var_Name = [], Var_Type = None\<rparr>"

definition zeroConst :: Const where
  "zeroConst = \<lparr>Const_Name = [], Const_Type = None, Const_Value = []\<rparr>"

definition zeroFunc :: Func where
  "zeroFunc = \<lparr>Func_Name = [], Func_Args = [], Func_Return = []\<rparr>"

definition zeroInterface :: Interface where
  "zeroInterface = \<lparr>Interface_Name = [], Interface_Methods = []\<rparr>"

definition zeroStruct :: Struct where
  "zeroStruct = \<lparr>Struct_Name = [], Struct_Fields = [], Struct_Methods = []\<rparr>"

definition zeroPackage :: Package where
  "zeroPackage =
     \<lparr>Package_Name = [], Package_Path = [], Package_Vars = [], Package_Consts = [],
      Package_Funcs = [], Package_Structs = [], Package_Interfaces = [], Package_Types = []\<rparr>"

section \<open>The change tree (change.go)\<close>

datatype DeclType =
  VarType | ConstType | FuncType | InterfaceType | StructType | TypeDefType | PackageType

datatype Change =
    DeclChange string DeclType "Change list"
  | ArgumentChanged int string Type "Change list"
  | ResultChanged int Type "Change list"
  | FieldChanged int string "Change list"
  | TypeChanged Type Type
  | PositionChanged int int
  | Removed
  | Added
  | ValueChanged string string

record PackageChanges =
  PackageChanges_Name :: string
  PackageChanges_Path :: string
  PackageChanges_Changes :: "Change list"

type_synonym APIChanges = "PackageChanges list"

definition NewPackageChanges :: "string \<Rightarrow> string \<Rightarrow> Change list \<Rightarrow> PackageChanges" where
  "NewPackageChanges name path changes =
     \<lparr>PackageChanges_Name = name, PackageChanges_Path = path, PackageChanges_Changes = changes\<rparr>"

definition NewDeclChange :: "string \<Rightarrow> DeclType \<Rightarrow> Change list \<Rightarrow> Change" where
  "NewDeclChange name typ changes = DeclChange name typ changes"

text \<open>
  \<^verbatim>\<open>IsBreaking\<close>: the type switch answers true for six kinds of change, walks the children
  of a \<^verbatim>\<open>DeclChange\<close> and returns true at the first breaking one, and falls through to
  \<^verbatim>\<open>return false\<close> for everything else.
\<close>

fun IsBreaking :: "Change \<Rightarrow> bool" where
  "IsBreaking Removed = True"
| "IsBreaking (PositionChanged from to) = True"
| "IsBreaking (TypeChanged from to) = True"
| "IsBreaking (FieldChanged pos name changes) = True"
| "IsBreaking (ResultChanged pos typ changes) = True"
| "IsBreaking (ArgumentChanged pos name typ changes) = True"
| "IsBreaking (DeclChange name typ changes) = list_ex IsBreaking changes"
| "IsBreaking Added = False"
| "IsBreaking (ValueChanged from to) = False"

section \<open>The diff (diff.go)\<close>

text \<open>\<^verbatim>\<open>typesEqual\<close> ignores both arguments and returns false.\<close>

definition typesEqual :: "Type \<Rightarrow> Type \<Rightarrow> bool" where
  "typesEqual a b = False"

subsection \<open>The name-keyed indices\<close>

text \<open>
  Each index is a Go map filled by one pass over the list, \<^verbatim>\<open>result[x.Name] = x\<close>; a later
  entry overwrites an earlier one with the same key.
\<close>

definition packagesIndex :: "API \<Rightarrow> (string \<rightharpoonup> Package)" where
  "packagesIndex a = fold (\<lambda>p result. result(Package_Path p \<mapsto> p)) a Map.empty"

definition constsIndex :: "Const list \<Rightarrow> (string \<rightharpoonup> Const)" where
  "constsIndex xs = fold (\<lambda>x result. result(Const_Name x \<mapsto> x)) xs Map.empty"

definition varsIndex :: "Var list \<Rightarrow> (string \<rightharpoonup> Var)" where
  "varsIndex xs = fold (\<lambda>x result. result(Var_Name x \<mapsto> x)) xs Map.empty"

definition funcsIndex :: "Func list \<Rightarrow> (string \<rightharpoonup> Func)" where
  "funcsIndex xs = fold (\<lambda>x result. result(Func_Name x \<mapsto> x)) xs Map.empty"

definition interfacesIndex :: "Interface list \<Rightarrow> (string \<rightharpoonup> Interface)" where
  "interfacesIndex xs = fold (\<lambda>x result. result(Interface_Name x \<mapsto> x)) xs Map.empty"

definition structsIndex :: "Struct list \<Rightarrow> (string \<rightharpoonup> Struct)" where
  "structsIndex xs = fold (\<lambda>x result. result(Struct_Name x \<mapsto> x)) xs Map.empty"

definition typesIndex :: "TypeDef list \<Rightarrow> (string \<rightharpoonup> TypeDef)" where
  "typesIndex xs = fold (\<lambda>x result. result(TypeDef_Name x \<mapsto> x)) xs Map.empty"

subsection \<open>Ranging over a Go map\<close>

text \<open>
  A \<^verbatim>\<open>range\<close> over a Go map visits every key once, in an order the language leaves open and the
  runtime varies from one loop to the next. The order of each loop is therefore an argument of
  the model: a list of keys. \<open>range_order m ks\<close> says that \<open>ks\<close> is an order the runtime may
  choose for the map \<open>m\<close>. Every differ has two loops, the first over the index of its first
  argument and the second over the index of its second argument, so it takes a pair of orders.
\<close>

definition range_order :: "(string \<rightharpoonup> 'a) \<Rightarrow> string list \<Rightarrow> bool" where
  "range_order m ks = (distinct ks \<and> set ks = dom m)"

type_synonym RangeOrder = "string list \<times> string list"

text \<open>The comma-ok form of a map lookup: the stored value and true, or the zero value and false.\<close>

definition lookup :: "'a \<Rightarrow> (string \<rightharpoonup> 'a) \<Rightarrow> string \<Rightarrow> 'a \<times> bool" where
  "lookup zero m k = (case m k of None \<Rightarrow> (zero, False) | Some v \<Rightarrow> (v, True))"

text \<open>
  The first loop of every differ, \<^verbatim>\<open>for name, v := range prev...\<close>: it records the name in
  \<^verbatim>\<open>seen\<close> and appends what the body of the loop emits for the entry. The state of the loop is
  the pair of \<^verbatim>\<open>changes\<close> and \<^verbatim>\<open>seen\<close>.
\<close>

definition range_prev ::
  "(string \<rightharpoonup> 'a) \<Rightarrow> string list \<Rightarrow> (string \<Rightarrow> 'a \<Rightarrow> 'c list) \<Rightarrow> 'c list \<times> string set" where
  "range_prev m ks body =
     fold (\<lambda>name (changes, seen).
             case m name of
               None \<Rightarrow> (changes, seen)
             | Some v \<Rightarrow> (changes @ body name v, insert name seen))
          ks ([], {})"

text \<open>
  The second loop, \<^verbatim>\<open>for name := range current...\<close>: a name that is not in \<^verbatim>\<open>seen\<close> is
  reported as added.
\<close>

definition range_added ::
  "(string \<rightharpoonup> 'a) \<Rightarrow> string list \<Rightarrow> string set \<Rightarrow> (string \<Rightarrow> 'a \<Rightarrow> 'c) \<Rightarrow> 'c list \<Rightarrow> 'c list" where
  "range_added m ks seen added changes =
     fold (\<lambda>name changes.
             case m name of
               None \<Rightarrow> changes
             | Some v \<Rightarrow> if name \<in> seen then changes else changes @ [added name v])
          ks changes"

subsection \<open>The differ of each category\<close>

definition constsDiff :: "RangeOrder \<Rightarrow> Const list \<Rightarrow> Const list \<Rightarrow> Change list" where
  "constsDiff ord prev current =
     (let currentConsts = constsIndex current;
          prevConsts = constsIndex prev;
          (changes, seen) = range_prev prevConsts (fst ord) (\<lambda>name v.
             let (v2, ok) = lookup zeroConst currentConsts name in
               (if \<not> ok then [NewDeclChange name ConstType [Removed]] else []) @
               (if \<not> typesEqual (Const_Type v) (Const_Type v2)
                then [NewDeclChange name ConstType [TypeChanged (Const_Type v) (Const_Type v2)]]
                else []) @
               (if Const_Value v \<noteq> Const_Value v2
                then [NewDeclChange name ConstType [ValueChanged (Const_Value v) (Const_Value v2)]]
                else []))
      in range_added currentConsts (snd ord) seen
           (\<lambda>name v. NewDeclChange name ConstType [Added]) changes)"

definition varsDiff :: "RangeOrder \<Rightarrow> Var list \<Rightarrow> Var list \<Rightarrow> Change list" where
  "varsDiff ord prev current =
     (let currentVars = varsIndex current;
          prevVars = varsIndex prev;
          (changes, seen) = range_prev prevVars (fst ord) (\<lambda>name v.
             let (v2, ok) = lookup zeroVar currentVars name in
               if \<not> ok then [NewDeclChange name VarType [Removed]]
               else if \<not> typesEqual (Var_Type v) (Var_Type v2)
               then [NewDeclChange name VarType [TypeChanged (Var_Type v) (Var_Type v2)]]
               else [])
      in range_added currentVars (snd ord) seen
           (\<lambda>name v. NewDeclChange name VarType [Added]) changes)"

text \<open>
  In the three differs below the body of the first loop looks the name up, reports a removal,
  and discards both entries (\<^verbatim>\<open>_ = v; _ = v2\<close>): the comparison of arguments, results, fields
  and methods is a \<^verbatim>\<open>TODO\<close> comment in the source.
\<close>

definition funcsDiff :: "RangeOrder \<Rightarrow> Func list \<Rightarrow> Func list \<Rightarrow> Change list" where
  "funcsDiff ord prev current =
     (let currentFuncs = funcsIndex current;
          prevFuncs = funcsIndex prev;
          (changes, seen) = range_prev prevFuncs (fst ord) (\<lambda>name v.
             let (v2, ok) = lookup zeroFunc currentFuncs name in
               if \<not> ok then [NewDeclChange name FuncType [Removed]] else [])
      in range_added currentFuncs (snd ord) seen
           (\<lambda>name v. NewDeclChange name FuncType [Added]) changes)"

definition structsDiff :: "RangeOrder \<Rightarrow> Struct list \<Rightarrow> Struct list \<Rightarrow> Change list" where
  "structsDiff ord prev current =
     (let currentStructs = structsIndex current;
          prevStructs = structsIndex prev;
          (changes, seen) = range_prev prevStructs (fst ord) (\<lambda>name v.
             let (v2, ok) = lookup zeroStruct currentStructs name in
               if \<not> ok then [NewDeclChange name StructType [Removed]] else [])
      in range_added currentStructs (snd ord) seen
           (\<lambda>name v. NewDeclChange name StructType [Added]) changes)"

definition interfacesDiff :: "RangeOrder \<Rightarrow> Interface list \<Rightarrow> Interface list \<Rightarrow> Change list" where
  "interfacesDiff ord prev current =
     (let currentInterfaces = interfacesIndex current;
          prevInterfaces = interfacesIndex prev;
          (changes, seen) = range_prev prevInterfaces (fst ord) (\<lambda>name v.
             let (v2, ok) = lookup zeroInterface currentInterfaces name in
               if \<not> ok then [NewDeclChange name InterfaceType [Removed]] else [])
      in range_added currentInterfaces (snd ord) seen
           (\<lambda>name v. NewDeclChange name InterfaceType [Added]) changes)"

definition typesDiff :: "RangeOrder \<Rightarrow> TypeDef list \<Rightarrow> TypeDef list \<Rightarrow> Change list" where
  "typesDiff ord prev current =
     (let currentTypes = typesIndex current;
          prevTypes = typesIndex prev;
          (changes, seen) = range_prev prevTypes (fst ord) (\<lambda>name v.
             let (v2, ok) = lookup zeroTypeDef currentTypes name in
               (if \<not> ok then [NewDeclChange name TypeDefType [Removed]] else []) @
               (if \<not> typesEqual (TypeDef_Type v) (TypeDef_Type v2)
                then [NewDeclChange name TypeDefType
                        [TypeChanged (TypeDef_Type v) (TypeDef_Type v2)]]
                else []))
      in range_added currentTypes (snd ord) seen
           (\<lambda>name v. NewDeclChange name TypeDefType [Added]) changes)"

subsection \<open>Packages and the whole API\<close>

text \<open>The orders of the twelve loops that one call of \<^verbatim>\<open>packageDiff\<close> runs.\<close>

record PackageOrder =
  constsOrder :: RangeOrder
  varsOrder :: RangeOrder
  funcsOrder :: RangeOrder
  structsOrder :: RangeOrder
  interfacesOrder :: RangeOrder
  typesOrder :: RangeOrder

definition packageDiff :: "PackageOrder \<Rightarrow> Package \<Rightarrow> Package \<Rightarrow> PackageChanges" where
  "packageDiff ord prev current =
     (let changes = [];
          changes = changes @ constsDiff (constsOrder ord) (Package_Consts prev) (Package_Consts current);
          changes = changes @ varsDiff (varsOrder ord) (Package_Vars prev) (Package_Vars current);
          changes = changes @ funcsDiff (funcsOrder ord) (Package_Funcs prev) (Package_Funcs current);
          changes = changes @ structsDiff (structsOrder ord) (Package_Structs prev) (Package_Structs current);
          changes = changes @ interfacesDiff (interfacesOrder ord)
                                (Package_Interfaces prev) (Package_Interfaces current);
          changes = changes @ typesDiff (typesOrder ord) (Package_Types prev) (Package_Types current)
      in \<lparr>PackageChanges_Name = Package_Name current,
          PackageChanges_Path = Package_Path current,
          PackageChanges_Changes = changes\<rparr>)"

text \<open>
  The orders of one call of \<^verbatim>\<open>Diff\<close>: of its loop over \<^verbatim>\<open>prevPkgs\<close>, of its loop over
  \<^verbatim>\<open>currentPkgs\<close>, and of the loops of the \<^verbatim>\<open>packageDiff\<close> call made for each path.
\<close>

record DiffOrder =
  prevPkgsOrder :: "string list"
  currentPkgsOrder :: "string list"
  packageOrder :: "string \<Rightarrow> PackageOrder"

text \<open>
  \<^verbatim>\<open>Diff(current, prev)\<close>. For a path in both indices the source calls
  \<^verbatim>\<open>packageDiff(p2, p1)\<close> with \<^verbatim>\<open>p2\<close> the current package and \<^verbatim>\<open>p1\<close> the previous one, while
  the parameters of \<^verbatim>\<open>packageDiff\<close> are \<^verbatim>\<open>(prev, current)\<close>; the model passes them as the
  source does.
\<close>

definition Diff :: "DiffOrder \<Rightarrow> API \<Rightarrow> API \<Rightarrow> APIChanges" where
  "Diff ord current prev =
     (let currentPkgs = packagesIndex current;
          prevPkgs = packagesIndex prev;
          (changes, seen) = range_prev prevPkgs (prevPkgsOrder ord) (\<lambda>path p1.
             let (p2, ok) = lookup zeroPackage currentPkgs path in
               if \<not> ok
               then [NewPackageChanges (Package_Name p1) (Package_Path p1)
                       [NewDeclChange (Package_Name p1) PackageType [Removed]]]
               else [packageDiff (packageOrder ord path) p2 p1])
      in range_added currentPkgs (currentPkgsOrder ord) seen
           (\<lambda>path p. NewPackageChanges (Package_Name p) (Package_Path p)
                        [NewDeclChange (Package_Name p) PackageType [Added]])
           changes)"

subsection \<open>Orders the runtime may choose\<close>

text \<open>
  A pair of orders fits a differ when its first list ranges over the index of the first
  argument and its second list over the index of the second one.
\<close>

definition package_order_ok :: "PackageOrder \<Rightarrow> Package \<Rightarrow> Package \<Rightarrow> bool" where
  "package_order_ok ord prev current =
     (range_order (constsIndex (Package_Consts prev)) (fst (constsOrder ord)) \<and>
      range_order (constsIndex (Package_Consts current)) (snd (constsOrder ord)) \<and>
      range_order (varsIndex (Package_Vars prev)) (fst (varsOrder ord)) \<and>
      range_order (varsIndex (Package_Vars current)) (snd (varsOrder ord)) \<and>
      range_order (funcsIndex (Package_Funcs prev)) (fst (funcsOrder ord)) \<and>
      range_order (funcsIndex (Package_Funcs current)) (snd (funcsOrder ord)) \<and>
      range_order (structsIndex (Package_Structs prev)) (fst (structsOrder ord)) \<and>
      range_order (structsIndex (Package_Structs current)) (snd (structsOrder ord)) \<and>
      range_order (interfacesIndex (Package_Interfaces prev)) (fst (interfacesOrder ord)) \<and>
      range_order (interfacesIndex (Package_Interfaces current)) (snd (interfacesOrder ord)) \<and>
      range_order (typesIndex (Package_Types prev)) (fst (typesOrder ord)) \<and>
      range_order (typesIndex (Package_Types current)) (snd (typesOrder ord)))"

text \<open>
  The orders of a run of \<^verbatim>\<open>Diff(current, prev)\<close>: the two loops over the package indices, and
  for every path in both indices the loops of the call \<^verbatim>\<open>packageDiff(p2, p1)\<close>, whose first
  argument is the current package.
\<close>

definition shared_order_ok ::
  "DiffOrder \<Rightarrow> (string \<rightharpoonup> Package) \<Rightarrow> (string \<rightharpoonup> Package) \<Rightarrow> string \<Rightarrow> bool" where
  "shared_order_ok ord currentPkgs prevPkgs path =
     (case prevPkgs path of
        None \<Rightarrow> True
      | Some p1 \<Rightarrow>
          (case currentPkgs path of
             None \<Rightarrow> True
           | Some p2 \<Rightarrow> package_order_ok (packageOrder ord path) p2 p1))"

definition diff_order_ok :: "DiffOrder \<Rightarrow> API \<Rightarrow> API \<Rightarrow> bool" where
  "diff_order_ok ord current prev =
     (range_order (packagesIndex prev) (prevPkgsOrder ord) \<and>
      range_order (packagesIndex current) (currentPkgsOrder ord) \<and>
      list_all (shared_order_ok ord (packagesIndex current) (packagesIndex prev))
        (prevPkgsOrder ord))"

subsection \<open>Notions used to state properties of the diff\<close>



text \<open>A \<^verbatim>\<open>PackageChanges\<close> with the order of its changes forgotten.\<close>

definition unordered :: "PackageChanges \<Rightarrow> string \<times> string \<times> Change multiset" where
  "unordered pc =
     (PackageChanges_Name pc, PackageChanges_Path pc, mset (PackageChanges_Changes pc))"

section \<open>Versions of a repository (api.go)\<close>

text \<open>
  \<^verbatim>\<open>Versions\<close> reads a git repository through the go-git library, checks tag names with the
  semver library and sorts with \<^verbatim>\<open>sort.Stable\<close>. None of the three is code of the repository.
  What \<^verbatim>\<open>Versions\<close> asks of them is modelled as data: the results of the calls it makes, and
  the two semver operations it uses.
\<close>

type_synonym Hash = string

record Version =
  Version_Name :: string
  Version_Commit :: Hash

text \<open>The error values \<^verbatim>\<open>Versions\<close> compares with \<^verbatim>\<open>==\<close>, and any other error with its text.\<close>

datatype GitError = ErrReferenceNotFound | ErrObjectNotFound | EOF | OtherError string

text \<open>A tag reference: \<^verbatim>\<open>tag.Name().Short()\<close> and \<^verbatim>\<open>tag.Hash()\<close>.\<close>

record Tag =
  Tag_Short :: string
  Tag_Hash :: Hash

text \<open>
  An opened repository: the result of \<^verbatim>\<open>r.Head()\<close> (the hash of the reference, or an error), the
  result of \<^verbatim>\<open>r.Tags()\<close> (an error, or the results of the successive calls of \<^verbatim>\<open>iter.Next()\<close>;
  once the list is used up \<^verbatim>\<open>Next\<close> returns \<^verbatim>\<open>io.EOF\<close>), and the error of \<^verbatim>\<open>r.CommitObject(h)\<close>
  for every hash, \<open>None\<close> when the commit is found.
\<close>

record Repository =
  Repository_Head :: "GitError + Hash"
  Repository_Tags :: "GitError + (GitError + Tag) list"
  Repository_CommitObject :: "Hash \<Rightarrow> GitError option"

text \<open>
  The semver library: \<^verbatim>\<open>semver.NewVersion\<close> (\<open>None\<close> when it returns an error) and the method
  \<^verbatim>\<open>LessThan\<close> of a parsed version.
\<close>

record 'v Semver =
  NewVersion :: "string \<Rightarrow> 'v option"
  LessThan :: "'v \<Rightarrow> 'v \<Rightarrow> bool"

text \<open>
  The errors \<^verbatim>\<open>Versions\<close> returns, one constructor for each \<^verbatim>\<open>fmt.Errorf\<close> of the source with
  the cause it wraps. \<open>MustParsePanic\<close> is not a returned error: it stands for the panic of
  \<^verbatim>\<open>semver.MustParse\<close> inside \<^verbatim>\<open>Less\<close>.
\<close>

datatype VersionsError =
    UnableToOpen GitError
  | NoHead
  | UnableToGetHead GitError
  | UnableToListTags GitError
  | ErrorNextTag GitError
  | UnknownCommitError GitError
  | MustParsePanic

text \<open>
  \<^verbatim>\<open>byVersion.Less\<close>, on the two elements \<^verbatim>\<open>b[i]\<close> and \<^verbatim>\<open>b[j]\<close>; \<open>None\<close> when \<^verbatim>\<open>MustParse\<close>
  panics.
\<close>

definition Less :: "'v Semver \<Rightarrow> Version \<Rightarrow> Version \<Rightarrow> bool option" where
  "Less sv bi bj =
     (if Version_Name bi = ''HEAD'' then Some True
      else if Version_Name bj = ''HEAD'' then Some False
      else case NewVersion sv (Version_Name bi) of
             None \<Rightarrow> None
           | Some v1 \<Rightarrow>
               (case NewVersion sv (Version_Name bj) of
                  None \<Rightarrow> None
                | Some v2 \<Rightarrow> Some (LessThan sv v1 v2)))"

text \<open>
  \<^verbatim>\<open>sort.Stable\<close> is modelled by the insertion sort the library runs on a slice of up to twenty
  elements: each element in turn moves left while it is less than its left neighbour. On a
  longer slice the library sorts blocks this way and merges them; the result is the same
  whenever \<^verbatim>\<open>Less\<close> orders the elements consistently, since a stable sort has one result then.
  The sorted prefix is kept reversed, its head being the left neighbour.
\<close>

fun insertLeft :: "('a \<Rightarrow> 'a \<Rightarrow> bool option) \<Rightarrow> 'a \<Rightarrow> 'a list \<Rightarrow> 'a list option" where
  "insertLeft lt x [] = Some [x]"
| "insertLeft lt x (y # ys) =
     (case lt x y of
        None \<Rightarrow> None
      | Some True \<Rightarrow> map_option ((#) y) (insertLeft lt x ys)
      | Some False \<Rightarrow> Some (x # y # ys))"

fun insertionSort ::
  "('a \<Rightarrow> 'a \<Rightarrow> bool option) \<Rightarrow> 'a list \<Rightarrow> 'a list \<Rightarrow> 'a list option" where
  "insertionSort lt prefix [] = Some (rev prefix)"
| "insertionSort lt prefix (x # xs) =
     (case insertLeft lt x prefix of
        None \<Rightarrow> None
      | Some prefix' \<Rightarrow> insertionSort lt prefix' xs)"

definition Stable :: "('a \<Rightarrow> 'a \<Rightarrow> bool option) \<Rightarrow> 'a list \<Rightarrow> 'a list option" where
  "Stable lt xs = insertionSort lt [] xs"

text \<open>
  The loop over the tag iterator: it ends at \<^verbatim>\<open>io.EOF\<close>, fails on any other error of \<^verbatim>\<open>Next\<close>,
  skips a tag whose hash is not a commit (\<^verbatim>\<open>ErrObjectNotFound\<close>), fails on any other error of
  \<^verbatim>\<open>CommitObject\<close>, skips a tag whose name is not a semantic version, and appends the others.
\<close>

fun tagsLoop ::
  "'v Semver \<Rightarrow> Repository \<Rightarrow> (GitError + Tag) list \<Rightarrow> Version list
     \<Rightarrow> VersionsError + Version list" where
  "tagsLoop sv r [] result = Inr result"
| "tagsLoop sv r (Inl err # iter) result =
     (if err = EOF then Inr result else Inl (ErrorNextTag err))"
| "tagsLoop sv r (Inr tag # iter) result =
     (case Repository_CommitObject r (Tag_Hash tag) of
        Some err \<Rightarrow>
          if err = ErrObjectNotFound then tagsLoop sv r iter result
          else Inl (UnknownCommitError err)
      | None \<Rightarrow>
          (case NewVersion sv (Tag_Short tag) of
             None \<Rightarrow> tagsLoop sv r iter result
           | Some v \<Rightarrow>
               tagsLoop sv r iter
                 (result @ [\<lparr>Version_Name = Tag_Short tag, Version_Commit = Tag_Hash tag\<rparr>])))"

text \<open>\<^verbatim>\<open>Versions(path)\<close>; \<open>PlainOpen\<close> is \<^verbatim>\<open>git.PlainOpen\<close>.\<close>

definition Versions ::
  "'v Semver \<Rightarrow> (string \<Rightarrow> GitError + Repository) \<Rightarrow> string \<Rightarrow> VersionsError + Version list" where
  "Versions sv PlainOpen path =
     (case PlainOpen path of
        Inl err \<Rightarrow> Inl (UnableToOpen err)
      | Inr r \<Rightarrow>
          (case Repository_Head r of
             Inl err \<Rightarrow>
               if err = ErrReferenceNotFound then Inl NoHead else Inl (UnableToGetHead err)
           | Inr head \<Rightarrow>
               (let result = [\<lparr>Version_Name = ''HEAD'', Version_Commit = head\<rparr>] in
                case Repository_Tags r of
                  Inl err \<Rightarrow> Inl (UnableToListTags err)
                | Inr iter \<Rightarrow>
                    (case tagsLoop sv r iter result of
                       Inl err \<Rightarrow> Inl err
                     | Inr result \<Rightarrow>
                         (case Stable (Less sv) result of
                            None \<Rightarrow> Inl MustParsePanic
                          | Some result \<Rightarrow> Inr result)))))"

text \<open>
  The tags the spec keeps: those the iterator yields before it ends that resolve to a commit
  and whose name parses as a semantic version, in the order of the iterator.
\<close>

fun keptTags :: "'v Semver \<Rightarrow> Repository \<Rightarrow> (GitError + Tag) list \<Rightarrow> Version list" where
  "keptTags sv r [] = []"
| "keptTags sv r (Inl err # iter) = []"
| "keptTags sv r (Inr tag # iter) =
     (if Repository_CommitObject r (Tag_Hash tag) = None \<and> NewVersion sv (Tag_Short tag) \<noteq> None
      then \<lparr>Version_Name = Tag_Short tag, Version_Commit = Tag_Hash tag\<rparr> # keptTags sv r iter
      else keptTags sv r iter)"

text \<open>
  What the theorems ask of the semver library: \<^verbatim>\<open>HEAD\<close> is not a semantic version, and
  \<^verbatim>\<open>LessThan\<close> is a strict weak order.
\<close>

definition semver_ok :: "'v Semver \<Rightarrow> bool" where
  "semver_ok sv =
     (NewVersion sv ''HEAD'' = None \<and>
      (\<forall>a b. LessThan sv a b \<longrightarrow> \<not> LessThan sv b a) \<and>
      (\<forall>a b c. \<not> LessThan sv a b \<longrightarrow> \<not> LessThan sv b c \<longrightarrow> \<not> LessThan sv a c))"

section \<open>Example snapshots\<close>

definition tInt :: Type where
  "tInt = Some (Basic ''int'')"

definition tString :: Type where
  "tString = Some (Basic ''string'')"

definition constA :: "string \<Rightarrow> Const" where
  "constA v = \<lparr>Const_Name = ''A'', Const_Type = tInt, Const_Value = v\<rparr>"

definition varV :: Var where
  "varV = \<lparr>Var_Name = ''V'', Var_Type = tInt\<rparr>"

definition typeT :: TypeDef where
  "typeT = \<lparr>TypeDef_Name = ''T'', TypeDef_Type = tInt, TypeDef_Alias = False\<rparr>"

definition funcF :: "Type \<Rightarrow> Func" where
  "funcF arg = \<lparr>Func_Name = ''F'', Func_Args = [arg], Func_Return = []\<rparr>"

definition emptyPkg :: "string \<Rightarrow> Package" where
  "emptyPkg name =
     \<lparr>Package_Name = name, Package_Path = ''example.com/'' @ name, Package_Vars = [],
      Package_Consts = [], Package_Funcs = [], Package_Structs = [], Package_Interfaces = [],
      Package_Types = []\<rparr>"

definition pkgConsts :: "Const list \<Rightarrow> Package" where
  "pkgConsts cs = (emptyPkg ''p'')\<lparr>Package_Consts := cs\<rparr>"

definition pkgVars :: "Var list \<Rightarrow> Package" where
  "pkgVars vs = (emptyPkg ''p'')\<lparr>Package_Vars := vs\<rparr>"

definition pkgFuncs :: "Func list \<Rightarrow> Package" where
  "pkgFuncs fs = (emptyPkg ''p'')\<lparr>Package_Funcs := fs\<rparr>"

definition changesOfP :: "Change list \<Rightarrow> PackageChanges" where
  "changesOfP cs =
     \<lparr>PackageChanges_Name = ''p'', PackageChanges_Path = ''example.com/p'',
      PackageChanges_Changes = cs\<rparr>"

definition noOrder :: PackageOrder where
  "noOrder =
     \<lparr>constsOrder = ([], []), varsOrder = ([], []), funcsOrder = ([], []),
      structsOrder = ([], []), interfacesOrder = ([], []), typesOrder = ([], [])\<rparr>"

definition onePkgOrder :: "PackageOrder \<Rightarrow> DiffOrder" where
  "onePkgOrder ord =
     \<lparr>prevPkgsOrder = [''example.com/p''], currentPkgsOrder = [''example.com/p''],
      packageOrder = (\<lambda>path. ord)\<rparr>"

definition constB :: Const where
  "constB = \<lparr>Const_Name = ''B'', Const_Type = tString, Const_Value = ''x''\<rparr>"

definition twoPkgs :: API where
  "twoPkgs = [emptyPkg ''a'', emptyPkg ''b'']"

definition removalOrder :: "string list \<Rightarrow> DiffOrder" where
  "removalOrder ks =
     \<lparr>prevPkgsOrder = ks, currentPkgsOrder = [], packageOrder = (\<lambda>path. noOrder)\<rparr>"

definition constsOrderOf :: "string list \<Rightarrow> DiffOrder" where
  "constsOrderOf ks = onePkgOrder (noOrder\<lparr>constsOrder := (ks, ks)\<rparr>)"

definition toySemver :: "nat Semver" where
  "toySemver =
     \<lparr>NewVersion = (\<lambda>s. if s = ''1.0.0'' then Some 1
                         else if s = ''v1.2.0'' then Some 2
                         else if s = ''2.0.0'' then Some 3
                         else None),
      LessThan = (\<lambda>a b. a < b)\<rparr>"

definition toyRepository :: Repository where
  "toyRepository =
     \<lparr>Repository_Head = Inr ''c4'',
      Repository_Tags = Inr
        [Inr \<lparr>Tag_Short = ''2.0.0'', Tag_Hash = ''c3''\<rparr>,
         Inr \<lparr>Tag_Short = ''nightly'', Tag_Hash = ''c4''\<rparr>,
         Inr \<lparr>Tag_Short = ''1.0.0'', Tag_Hash = ''c1''\<rparr>,
         Inr \<lparr>Tag_Short = ''3.0.0-annotated'', Tag_Hash = ''t9''\<rparr>,
         Inr \<lparr>Tag_Short = ''v1.2.0'', Tag_Hash = ''c2''\<rparr>],
      Repository_CommitObject = (\<lambda>h. if h = ''t9'' then Some ErrObjectNotFound else None)\<rparr>"

definition toyOpen :: "string \<Rightarrow> GitError + Repository" where
  "toyOpen path =
     (if path = ''/repo'' then Inr toyRepository
      else Inl (OtherError ''repository does not exist''))"

section \<open>Facts about the change tree and the type comparison\<close>

lemmas diff_defs =
  Diff_def packageDiff_def packagesIndex_def constsDiff_def constsIndex_def varsDiff_def
  varsIndex_def funcsDiff_def funcsIndex_def structsDiff_def structsIndex_def
  interfacesDiff_def interfacesIndex_def typesDiff_def typesIndex_def range_prev_def
  range_added_def lookup_def typesEqual_def NewDeclChange_def NewPackageChanges_def
  zeroConst_def zeroVar_def zeroFunc_def zeroStruct_def zeroInterface_def zeroTypeDef_def
  zeroPackage_def

lemmas order_defs =
  diff_order_ok_def shared_order_ok_def package_order_ok_def range_order_def

lemmas example_defs =
  tInt_def tString_def constA_def varV_def typeT_def funcF_def emptyPkg_def noOrder_def
  onePkgOrder_def pkgConsts_def pkgVars_def pkgFuncs_def changesOfP_def
  constB_def twoPkgs_def removalOrder_def constsOrderOf_def

text \<open>
  C1. The claim asks that the type identity predicate be reflexive, symmetric, and false when
  the kinds of the two descriptors differ. \<^verbatim>\<open>typesEqual\<close> returns false for every pair: it is
  symmetric and false across kinds, and it is false for a descriptor compared with itself,
  here the basic type int.
\<close>

theorem typesEqual_int_int_false:
  "\<not> typesEqual (Some (Basic ''int'')) (Some (Basic ''int''))
   \<and> (\<forall>a b. typesEqual a b = typesEqual b a)
   \<and> (\<forall>t. \<not> typesEqual t t)"
  by (simp add: typesEqual_def)

text \<open>
  C4. \<^verbatim>\<open>IsBreaking\<close> is true exactly for \<^verbatim>\<open>Removed\<close>, \<^verbatim>\<open>PositionChanged\<close>, \<^verbatim>\<open>TypeChanged\<close>,
  \<^verbatim>\<open>FieldChanged\<close>, \<^verbatim>\<open>ResultChanged\<close>, \<^verbatim>\<open>ArgumentChanged\<close>, and for a \<^verbatim>\<open>DeclChange\<close> with at
  least one child that is breaking in turn. It is false for \<^verbatim>\<open>Added\<close> and \<^verbatim>\<open>ValueChanged\<close>, and
  false for a \<^verbatim>\<open>DeclChange\<close> whose children are all non-breaking.
\<close>

theorem IsBreaking_iff:
  "(IsBreaking change \<longleftrightarrow>
      (change = Removed
       \<or> (\<exists>from to. change = PositionChanged from to)
       \<or> (\<exists>from to. change = TypeChanged from to)
       \<or> (\<exists>pos name changes. change = FieldChanged pos name changes)
       \<or> (\<exists>pos typ changes. change = ResultChanged pos typ changes)
       \<or> (\<exists>pos name typ changes. change = ArgumentChanged pos name typ changes)
       \<or> (\<exists>name typ changes. change = DeclChange name typ changes
              \<and> (\<exists>c \<in> set changes. IsBreaking c))))
   \<and> \<not> IsBreaking Added
   \<and> \<not> IsBreaking (ValueChanged from to)
   \<and> ((\<forall>c \<in> set changes'. \<not> IsBreaking c) \<longrightarrow> \<not> IsBreaking (DeclChange name' typ' changes'))"
  by (cases change) (simp_all add: list_ex_iff)

theorem IsBreaking_iff_witness:
  "IsBreaking (DeclChange ''S'' StructType [Added, DeclChange ''M'' FuncType [Removed]])
   \<and> \<not> IsBreaking (DeclChange ''A'' ConstType [ValueChanged ''1'' ''2'', Added])
   \<and> \<not> IsBreaking (DeclChange ''A'' ConstType [])"
  using IsBreaking_iff [of "DeclChange ''S'' StructType [Added, DeclChange ''M'' FuncType [Removed]]"
      "''1''" "''2''" "[ValueChanged ''1'' ''2'', Added]" "''A''" ConstType]
    IsBreaking_iff [of Added "''1''" "''2''" "[]" "''A''" ConstType]
  by simp

section \<open>Runs of the differs on the example snapshots\<close>

text \<open>
  Each index below has one key, so the order given is the only one the runtime can choose;
  the first conjuncts say that it is one.
\<close>

text \<open>
  C2. The claim asks that \<^verbatim>\<open>Diff(S, S)\<close> report no change in any package. For the snapshot \<open>S\<close>
  of one package with the constant \<^verbatim>\<open>A int = 1\<close>, the run reports a \<^verbatim>\<open>TypeChanged\<close> from int
  to int for \<^verbatim>\<open>A\<close>, because \<^verbatim>\<open>typesEqual\<close> is false for every pair.
\<close>

theorem Diff_same_snapshot_reports_TypeChanged:
  "diff_order_ok (onePkgOrder (noOrder\<lparr>constsOrder := ([''A''], [''A''])\<rparr>))
      [pkgConsts [constA ''1'']] [pkgConsts [constA ''1'']]
   \<and> Diff (onePkgOrder (noOrder\<lparr>constsOrder := ([''A''], [''A''])\<rparr>))
      [pkgConsts [constA ''1'']] [pkgConsts [constA ''1'']]
     = [changesOfP [DeclChange ''A'' ConstType [TypeChanged tInt tInt]]]"
  by (simp add: diff_defs order_defs example_defs)

text \<open>
  C3. The claim asks for exactly one change, \<^verbatim>\<open>DeclChange(name, kind, [Removed])\<close>, for a name
  in the previous list that the current list lacks. \<^verbatim>\<open>constsDiff\<close> goes on after reporting the
  removal and compares the entry with the zero value of the failed lookup: for the constant
  \<^verbatim>\<open>A int = 1\<close> it emits three changes, and \<^verbatim>\<open>typesDiff\<close> emits two for the type \<^verbatim>\<open>T\<close>. Through
  \<^verbatim>\<open>Diff\<close>, which hands the current package to \<^verbatim>\<open>packageDiff\<close> as \<^verbatim>\<open>prev\<close>, the constant that
  only the previous snapshot has is reported as added.
\<close>

theorem removed_const_reported_three_times:
  "range_order (constsIndex [constA ''1'']) [''A''] \<and> range_order (constsIndex []) []
   \<and> constsDiff ([''A''], []) [constA ''1''] []
       = [DeclChange ''A'' ConstType [Removed],
          DeclChange ''A'' ConstType [TypeChanged tInt None],
          DeclChange ''A'' ConstType [ValueChanged ''1'' []]]
   \<and> range_order (typesIndex [typeT]) [''T''] \<and> range_order (typesIndex []) []
   \<and> typesDiff ([''T''], []) [typeT] []
       = [DeclChange ''T'' TypeDefType [Removed],
          DeclChange ''T'' TypeDefType [TypeChanged tInt None]]
   \<and> diff_order_ok (onePkgOrder (noOrder\<lparr>constsOrder := ([], [''A''])\<rparr>))
        [pkgConsts []] [pkgConsts [constA ''1'']]
   \<and> Diff (onePkgOrder (noOrder\<lparr>constsOrder := ([], [''A''])\<rparr>))
        [pkgConsts []] [pkgConsts [constA ''1'']]
       = [changesOfP [DeclChange ''A'' ConstType [Added]]]"
  by (simp add: diff_defs order_defs example_defs)

text \<open>
  C5. The claim asks for one change, a \<^verbatim>\<open>DeclChange\<close> holding only \<^verbatim>\<open>ValueChanged\<close>, when two
  constants of one name have the same type and different values, and for that change to be
  non-breaking. For \<^verbatim>\<open>A int = 1\<close> against \<^verbatim>\<open>A int = 2\<close> the differ emits two changes, the
  first a breaking \<^verbatim>\<open>TypeChanged\<close> from int to int. Through \<^verbatim>\<open>Diff\<close> with the previous value 1
  and the current value 2, the \<^verbatim>\<open>ValueChanged\<close> reads from 2 to 1.
\<close>

theorem value_change_reported_with_TypeChanged:
  "range_order (constsIndex [constA ''1'']) [''A'']
   \<and> range_order (constsIndex [constA ''2'']) [''A'']
   \<and> constsDiff ([''A''], [''A'']) [constA ''1''] [constA ''2'']
       = [DeclChange ''A'' ConstType [TypeChanged tInt tInt],
          DeclChange ''A'' ConstType [ValueChanged ''1'' ''2'']]
   \<and> IsBreaking (DeclChange ''A'' ConstType [TypeChanged tInt tInt])
   \<and> diff_order_ok (onePkgOrder (noOrder\<lparr>constsOrder := ([''A''], [''A''])\<rparr>))
        [pkgConsts [constA ''2'']] [pkgConsts [constA ''1'']]
   \<and> Diff (onePkgOrder (noOrder\<lparr>constsOrder := ([''A''], [''A''])\<rparr>))
        [pkgConsts [constA ''2'']] [pkgConsts [constA ''1'']]
       = [changesOfP [DeclChange ''A'' ConstType [TypeChanged tInt tInt],
                      DeclChange ''A'' ConstType [ValueChanged ''2'' ''1'']]]"
  by (simp add: diff_defs order_defs example_defs)

text \<open>
  C6. The claim asks that a name in the current snapshot and not in the previous one be
  reported as \<^verbatim>\<open>DeclChange(name, kind, [Added])\<close>, a non-breaking change. For a package whose
  current version has the variable \<^verbatim>\<open>V\<close> and whose previous version has none,
  \<^verbatim>\<open>Diff(current, prev)\<close> reports \<^verbatim>\<open>V\<close> as removed, a breaking change: \<^verbatim>\<open>Diff\<close> calls
  \<^verbatim>\<open>packageDiff(p2, p1)\<close> with the current package first, and \<^verbatim>\<open>packageDiff\<close> takes its first
  argument as \<^verbatim>\<open>prev\<close>.
\<close>

theorem Diff_reports_added_var_as_removed:
  "diff_order_ok (onePkgOrder (noOrder\<lparr>varsOrder := ([''V''], [])\<rparr>))
        [pkgVars [varV]] [pkgVars []]
   \<and> Diff (onePkgOrder (noOrder\<lparr>varsOrder := ([''V''], [])\<rparr>))
        [pkgVars [varV]] [pkgVars []]
       = [changesOfP [DeclChange ''V'' VarType [Removed]]]
   \<and> IsBreaking (DeclChange ''V'' VarType [Removed])"
  by (simp add: diff_defs order_defs example_defs)

text \<open>
  C7. The claim asks that two functions matched by name be compared position by position and
  that differing signatures produce at least one change. \<^verbatim>\<open>funcsDiff\<close> never reads the
  signatures: for \<^verbatim>\<open>F(int)\<close> against \<^verbatim>\<open>F(string)\<close> it emits nothing, and \<^verbatim>\<open>Diff\<close> reports the
  package with an empty change list.
\<close>

theorem funcsDiff_ignores_signatures:
  "range_order (funcsIndex [funcF tInt]) [''F'']
   \<and> range_order (funcsIndex [funcF tString]) [''F'']
   \<and> funcF tInt \<noteq> funcF tString
   \<and> funcsDiff ([''F''], [''F'']) [funcF tInt] [funcF tString] = []
   \<and> diff_order_ok (onePkgOrder (noOrder\<lparr>funcsOrder := ([''F''], [''F''])\<rparr>))
        [pkgFuncs [funcF tString]] [pkgFuncs [funcF tInt]]
   \<and> Diff (onePkgOrder (noOrder\<lparr>funcsOrder := ([''F''], [''F''])\<rparr>))
        [pkgFuncs [funcF tString]] [pkgFuncs [funcF tInt]]
       = [changesOfP []]"
  by (simp add: diff_defs order_defs example_defs)

section \<open>The two loops of a differ in closed form\<close>

lemma fold_prev_acc:
  "fold (\<lambda>name (changes, seen).
           case m name of
             None \<Rightarrow> (changes, seen)
           | Some v \<Rightarrow> (changes @ body name v, insert name seen)) ks (cs, s)
   = (cs @ concat (map (\<lambda>k. case m k of None \<Rightarrow> [] | Some v \<Rightarrow> body k v) ks),
      s \<union> {k \<in> set ks. m k \<noteq> None})"
  by (induction ks arbitrary: cs s) (auto split: option.splits)

lemma range_prev_eq:
  "range_prev m ks body =
     (concat (map (\<lambda>k. case m k of None \<Rightarrow> [] | Some v \<Rightarrow> body k v) ks),
      {k \<in> set ks. m k \<noteq> None})"
  by (simp add: range_prev_def fold_prev_acc)

lemma range_added_eq:
  "range_added m ks seen added changes =
     changes @ concat (map (\<lambda>k. case m k of None \<Rightarrow> []
                                 | Some v \<Rightarrow> if k \<in> seen then [] else [added k v]) ks)"
  unfolding range_added_def
  by (induction ks arbitrary: changes) (auto split: option.splits)

section \<open>The entries an index holds\<close>










section \<open>Two runs with different range orders\<close>

lemma range_order_seen: "range_order m ks \<Longrightarrow> {k \<in> set ks. m k \<noteq> None} = dom m"
  by (auto simp: range_order_def)

lemma range_order_mset: "range_order m ks \<Longrightarrow> range_order m ks' \<Longrightarrow> mset ks = mset ks'"
  by (metis range_order_def set_eq_iff_mset_eq_distinct)

lemma mset_concat_map_perm:
  "mset ks = mset ks' \<Longrightarrow> mset (concat (map f ks)) = mset (concat (map f ks'))"
proof -
  assume eq: "mset ks = mset ks'"
  have "mset (concat (map f xs)) = sum_mset (image_mset (\<lambda>k. mset (f k)) (mset xs))" for xs
    by (induction xs) simp_all
  with eq show ?thesis by simp
qed

lemma two_loops_mset:
  assumes "range_order m1 ks1" and "range_order m1 ks1'"
    and "range_order m2 ks2" and "range_order m2 ks2'"
    and "\<And>k v. m1 k = Some v \<Longrightarrow> map h (body1 k v) = map h (body2 k v)"
  shows "mset (map h (case range_prev m1 ks1 body1 of
                  (changes, seen) \<Rightarrow> range_added m2 ks2 seen added changes))
       = mset (map h (case range_prev m1 ks1' body2 of
                  (changes, seen) \<Rightarrow> range_added m2 ks2' seen added changes))"
proof -
  let ?f = "\<lambda>body k. map h (case m1 k of None \<Rightarrow> [] | Some v \<Rightarrow> body k v)"
  let ?g = "\<lambda>k. map h (case m2 k of None \<Rightarrow> []
                         | Some v \<Rightarrow> if k \<in> dom m1 then [] else [added k v])"
  have same: "?f body1 = ?f body2"
    by (rule ext) (simp add: assms(5) split: option.splits)
  have shape: "map h (case range_prev m1 ks body of
                  (changes, seen) \<Rightarrow> range_added m2 js seen added changes)
        = concat (map (?f body) ks) @ concat (map ?g js)"
    if "range_order m1 ks" for ks js body
    using range_order_seen [OF that]
    by (simp add: range_prev_eq range_added_eq map_concat comp_def)
  have "mset (concat (map (?f body1) ks1)) = mset (concat (map (?f body2) ks1'))"
    unfolding same
    by (rule mset_concat_map_perm) (rule range_order_mset [OF assms(1) assms(2)])
  moreover have "mset (concat (map ?g ks2)) = mset (concat (map ?g ks2'))"
    by (rule mset_concat_map_perm) (rule range_order_mset [OF assms(3) assms(4)])
  ultimately show ?thesis
    by (simp only: shape [OF assms(1)] shape [OF assms(2)] mset_append)
qed

lemma two_loops_mset_id:
  assumes "range_order m1 ks1" and "range_order m1 ks1'"
    and "range_order m2 ks2" and "range_order m2 ks2'"
  shows "mset (case range_prev m1 ks1 body of
                  (changes, seen) \<Rightarrow> range_added m2 ks2 seen added changes)
       = mset (case range_prev m1 ks1' body of
                  (changes, seen) \<Rightarrow> range_added m2 ks2' seen added changes)"
  using two_loops_mset [OF assms, of "\<lambda>x. x" body body added] by simp

lemma constsDiff_mset:
  assumes "range_order (constsIndex prev) (fst o1)" and "range_order (constsIndex prev) (fst o2)"
    and "range_order (constsIndex current) (snd o1)"
    and "range_order (constsIndex current) (snd o2)"
  shows "mset (constsDiff o1 prev current) = mset (constsDiff o2 prev current)"
  unfolding constsDiff_def Let_def
  by (rule two_loops_mset_id [OF assms])

lemma varsDiff_mset:
  assumes "range_order (varsIndex prev) (fst o1)" and "range_order (varsIndex prev) (fst o2)"
    and "range_order (varsIndex current) (snd o1)"
    and "range_order (varsIndex current) (snd o2)"
  shows "mset (varsDiff o1 prev current) = mset (varsDiff o2 prev current)"
  unfolding varsDiff_def Let_def
  by (rule two_loops_mset_id [OF assms])

lemma funcsDiff_mset:
  assumes "range_order (funcsIndex prev) (fst o1)" and "range_order (funcsIndex prev) (fst o2)"
    and "range_order (funcsIndex current) (snd o1)"
    and "range_order (funcsIndex current) (snd o2)"
  shows "mset (funcsDiff o1 prev current) = mset (funcsDiff o2 prev current)"
  unfolding funcsDiff_def Let_def
  by (rule two_loops_mset_id [OF assms])

lemma structsDiff_mset:
  assumes "range_order (structsIndex prev) (fst o1)"
    and "range_order (structsIndex prev) (fst o2)"
    and "range_order (structsIndex current) (snd o1)"
    and "range_order (structsIndex current) (snd o2)"
  shows "mset (structsDiff o1 prev current) = mset (structsDiff o2 prev current)"
  unfolding structsDiff_def Let_def
  by (rule two_loops_mset_id [OF assms])

lemma interfacesDiff_mset:
  assumes "range_order (interfacesIndex prev) (fst o1)"
    and "range_order (interfacesIndex prev) (fst o2)"
    and "range_order (interfacesIndex current) (snd o1)"
    and "range_order (interfacesIndex current) (snd o2)"
  shows "mset (interfacesDiff o1 prev current) = mset (interfacesDiff o2 prev current)"
  unfolding interfacesDiff_def Let_def
  by (rule two_loops_mset_id [OF assms])

lemma typesDiff_mset:
  assumes "range_order (typesIndex prev) (fst o1)" and "range_order (typesIndex prev) (fst o2)"
    and "range_order (typesIndex current) (snd o1)"
    and "range_order (typesIndex current) (snd o2)"
  shows "mset (typesDiff o1 prev current) = mset (typesDiff o2 prev current)"
  unfolding typesDiff_def Let_def
  by (rule two_loops_mset_id [OF assms])

lemma packageDiff_unordered:
  assumes "package_order_ok o1 prev current" and "package_order_ok o2 prev current"
  shows "unordered (packageDiff o1 prev current) = unordered (packageDiff o2 prev current)"
proof -
  note ok = assms [unfolded package_order_ok_def]
  have c: "mset (constsDiff (constsOrder o1) (Package_Consts prev) (Package_Consts current))
         = mset (constsDiff (constsOrder o2) (Package_Consts prev) (Package_Consts current))"
    by (rule constsDiff_mset) (use ok in simp_all)
  have v: "mset (varsDiff (varsOrder o1) (Package_Vars prev) (Package_Vars current))
         = mset (varsDiff (varsOrder o2) (Package_Vars prev) (Package_Vars current))"
    by (rule varsDiff_mset) (use ok in simp_all)
  have f: "mset (funcsDiff (funcsOrder o1) (Package_Funcs prev) (Package_Funcs current))
         = mset (funcsDiff (funcsOrder o2) (Package_Funcs prev) (Package_Funcs current))"
    by (rule funcsDiff_mset) (use ok in simp_all)
  have s: "mset (structsDiff (structsOrder o1) (Package_Structs prev) (Package_Structs current))
         = mset (structsDiff (structsOrder o2) (Package_Structs prev) (Package_Structs current))"
    by (rule structsDiff_mset) (use ok in simp_all)
  have i: "mset (interfacesDiff (interfacesOrder o1) (Package_Interfaces prev)
                   (Package_Interfaces current))
         = mset (interfacesDiff (interfacesOrder o2) (Package_Interfaces prev)
                   (Package_Interfaces current))"
    by (rule interfacesDiff_mset) (use ok in simp_all)
  have t: "mset (typesDiff (typesOrder o1) (Package_Types prev) (Package_Types current))
         = mset (typesDiff (typesOrder o2) (Package_Types prev) (Package_Types current))"
    by (rule typesDiff_mset) (use ok in simp_all)
  show ?thesis
    by (simp add: unordered_def packageDiff_def c v f s i t)
qed

lemma shared_order_okD:
  assumes "diff_order_ok ord current prev"
    and "packagesIndex prev path = Some p1" and "packagesIndex current path = Some p2"
  shows "package_order_ok (packageOrder ord path) p2 p1"
proof -
  from assms(1) have "set (prevPkgsOrder ord) = dom (packagesIndex prev)"
    and all: "list_all (shared_order_ok ord (packagesIndex current) (packagesIndex prev))
                (prevPkgsOrder ord)"
    by (simp_all add: diff_order_ok_def range_order_def)
  with assms(2) have "path \<in> set (prevPkgsOrder ord)" by auto
  with all have "shared_order_ok ord (packagesIndex current) (packagesIndex prev) path"
    by (simp add: list_all_iff)
  with assms(2,3) show ?thesis by (simp add: shared_order_ok_def)
qed

section \<open>The order of the output\<close>

text \<open>
  C8. The claim asks that two runs of \<^verbatim>\<open>Diff\<close> on the same snapshots give the same output
  whatever order the loops range in, sorted by package path and by declaration name. No differ
  sorts: the output lists follow the orders of the loops. With two removed packages the two
  orders of the loop over \<^verbatim>\<open>prevPkgs\<close> give two different outputs, the second with the paths
  in descending order; with two constants in one package the same happens inside the package.
\<close>

theorem Diff_output_follows_range_order:
  "diff_order_ok (removalOrder [''example.com/a'', ''example.com/b'']) [] twoPkgs
   \<and> diff_order_ok (removalOrder [''example.com/b'', ''example.com/a'']) [] twoPkgs
   \<and> Diff (removalOrder [''example.com/a'', ''example.com/b'']) [] twoPkgs
       \<noteq> Diff (removalOrder [''example.com/b'', ''example.com/a'']) [] twoPkgs
   \<and> map PackageChanges_Path (Diff (removalOrder [''example.com/b'', ''example.com/a'']) [] twoPkgs)
       = [''example.com/b'', ''example.com/a'']
   \<and> diff_order_ok (constsOrderOf [''A'', ''B''])
        [pkgConsts [constA ''1'', constB]] [pkgConsts [constA ''1'', constB]]
   \<and> diff_order_ok (constsOrderOf [''B'', ''A''])
        [pkgConsts [constA ''1'', constB]] [pkgConsts [constA ''1'', constB]]
   \<and> Diff (constsOrderOf [''A'', ''B''])
        [pkgConsts [constA ''1'', constB]] [pkgConsts [constA ''1'', constB]]
       \<noteq> Diff (constsOrderOf [''B'', ''A''])
        [pkgConsts [constA ''1'', constB]] [pkgConsts [constA ''1'', constB]]"
  by (simp add: diff_defs order_defs example_defs insert_commute)

text \<open>
  C8, as amended. Any two runs of \<^verbatim>\<open>Diff\<close> on the same snapshots report the same packages
  and, for every package, the same changes: the outputs of two runs are equal once the order of
  the package entries and the order of the changes inside each entry are forgotten.
\<close>

theorem Diff_orders_same_entries:
  assumes "diff_order_ok o1 current prev" and "diff_order_ok o2 current prev"
  shows "mset (map unordered (Diff o1 current prev)) = mset (map unordered (Diff o2 current prev))"
  unfolding Diff_def Let_def
proof (rule two_loops_mset)
  show "range_order (packagesIndex prev) (prevPkgsOrder o1)"
    and "range_order (packagesIndex prev) (prevPkgsOrder o2)"
    and "range_order (packagesIndex current) (currentPkgsOrder o1)"
    and "range_order (packagesIndex current) (currentPkgsOrder o2)"
    using assms by (simp_all add: diff_order_ok_def)
next
  fix path p1
  assume p1: "packagesIndex prev path = Some p1"
  show "map unordered
          (case lookup zeroPackage (packagesIndex current) path of
             (p2, ok) \<Rightarrow>
               if \<not> ok
               then [NewPackageChanges (Package_Name p1) (Package_Path p1)
                       [NewDeclChange (Package_Name p1) PackageType [Removed]]]
               else [packageDiff (packageOrder o1 path) p2 p1])
      = map unordered
          (case lookup zeroPackage (packagesIndex current) path of
             (p2, ok) \<Rightarrow>
               if \<not> ok
               then [NewPackageChanges (Package_Name p1) (Package_Path p1)
                       [NewDeclChange (Package_Name p1) PackageType [Removed]]]
               else [packageDiff (packageOrder o2 path) p2 p1])"
  proof (cases "packagesIndex current path")
    case None
    then show ?thesis by (simp add: lookup_def)
  next
    case (Some p2)
    have "unordered (packageDiff (packageOrder o1 path) p2 p1)
        = unordered (packageDiff (packageOrder o2 path) p2 p1)"
      by (rule packageDiff_unordered)
         (rule shared_order_okD [OF assms(1) p1 Some], rule shared_order_okD [OF assms(2) p1 Some])
    with Some show ?thesis by (simp add: lookup_def)
  qed
qed

theorem Diff_orders_same_entries_witness:
  "diff_order_ok (constsOrderOf [''A'', ''B''])
        [pkgConsts [constA ''2'', constB]] [pkgConsts [constA ''1'', constB]]
   \<and> diff_order_ok (constsOrderOf [''B'', ''A''])
        [pkgConsts [constA ''2'', constB]] [pkgConsts [constA ''1'', constB]]
   \<and> mset (map unordered (Diff (constsOrderOf [''A'', ''B''])
        [pkgConsts [constA ''2'', constB]] [pkgConsts [constA ''1'', constB]]))
     = mset (map unordered (Diff (constsOrderOf [''B'', ''A''])
        [pkgConsts [constA ''2'', constB]] [pkgConsts [constA ''1'', constB]]))"
proof -
  have ok1: "diff_order_ok (constsOrderOf [''A'', ''B''])
        [pkgConsts [constA ''2'', constB]] [pkgConsts [constA ''1'', constB]]"
    by (simp add: diff_defs order_defs example_defs insert_commute)
  have ok2: "diff_order_ok (constsOrderOf [''B'', ''A''])
        [pkgConsts [constA ''2'', constB]] [pkgConsts [constA ''1'', constB]]"
    by (simp add: diff_defs order_defs example_defs insert_commute)
  from ok1 ok2 Diff_orders_same_entries [OF ok1 ok2] show ?thesis by simp
qed

section \<open>The list of versions\<close>

lemma tagsLoop_Inr:
  "tagsLoop sv r iter result = Inr out \<Longrightarrow> out = result @ keptTags sv r iter"
  by (induction sv r iter result rule: tagsLoop.induct)
     (auto split: if_splits option.splits)

lemma keptTags_valid:
  "v \<in> set (keptTags sv r iter) \<Longrightarrow>
     NewVersion sv (Version_Name v) \<noteq> None \<and> Repository_CommitObject r (Version_Commit v) = None"
  by (induction sv r iter rule: keptTags.induct) (auto split: if_splits)

lemma Less_parsed:
  assumes "NewVersion sv ''HEAD'' = None"
    and "NewVersion sv (Version_Name a) = Some va" and "NewVersion sv (Version_Name b) = Some vb"
  shows "Less sv a b = Some (LessThan sv va vb)"
  using assms by (auto simp: Less_def)

lemma insertLeft_above_HEAD:
  assumes sv: "semver_ok sv"
    and h: "Version_Name h = ''HEAD''"
    and x: "NewVersion sv (Version_Name x) \<noteq> None"
    and ys: "\<forall>y \<in> set ys. NewVersion sv (Version_Name y) \<noteq> None"
    and sorted: "sorted_wrt (\<lambda>a b. Less sv a b = Some False) ys"
  shows "\<exists>zs. insertLeft (Less sv) x (ys @ [h]) = Some (zs @ [h])
            \<and> mset zs = mset ys + {#x#}
            \<and> sorted_wrt (\<lambda>a b. Less sv a b = Some False) zs"
  using ys sorted
proof (induction ys)
  case Nil
  from sv have "NewVersion sv ''HEAD'' = None" by (simp add: semver_ok_def)
  with x have "Version_Name x \<noteq> ''HEAD''" by auto
  with h have "Less sv x h = Some False" by (simp add: Less_def)
  then show ?case by simp
next
  case (Cons y ys)
  from sv have head: "NewVersion sv ''HEAD'' = None" by (simp add: semver_ok_def)
  from sv have asym: "LessThan sv a b \<Longrightarrow> \<not> LessThan sv b a" for a b
    unfolding semver_ok_def by blast
  from sv have negtrans:
    "\<not> LessThan sv a b \<Longrightarrow> \<not> LessThan sv b c \<Longrightarrow> \<not> LessThan sv a c" for a b c
    unfolding semver_ok_def by blast
  from x obtain vx where vx: "NewVersion sv (Version_Name x) = Some vx" by auto
  from Cons.prems obtain vy where vy: "NewVersion sv (Version_Name y) = Some vy" by auto
  have xy: "Less sv x y = Some (LessThan sv vx vy)" by (rule Less_parsed [OF head vx vy])
  have yx: "Less sv y x = Some (LessThan sv vy vx)" by (rule Less_parsed [OF head vy vx])
  show ?case
  proof (cases "LessThan sv vx vy")
    case True
    from Cons obtain zs where zs: "insertLeft (Less sv) x (ys @ [h]) = Some (zs @ [h])"
      "mset zs = mset ys + {#x#}" "sorted_wrt (\<lambda>a b. Less sv a b = Some False) zs"
      by auto
    from True have "\<not> LessThan sv vy vx" by (rule asym)
    with yx have "Less sv y x = Some False" by simp
    moreover from zs(2) have "set_mset (mset zs) = set_mset (mset ys + {#x#})" by simp
    then have "set zs = insert x (set ys)" by simp
    ultimately have "sorted_wrt (\<lambda>a b. Less sv a b = Some False) (y # zs)"
      using Cons.prems(2) zs(3) by simp
    with zs xy True show ?thesis
      by (intro exI [of _ "y # zs"]) simp
  next
    case False
    have "Less sv x z = Some False" if z: "z \<in> set ys" for z
    proof -
      from Cons.prems z obtain vz where vz: "NewVersion sv (Version_Name z) = Some vz" by auto
      from Cons.prems(2) z have "Less sv y z = Some False" by simp
      with Less_parsed [OF head vy vz] have "\<not> LessThan sv vy vz" by simp
      with False have "\<not> LessThan sv vx vz" by (rule negtrans)
      with Less_parsed [OF head vx vz] show ?thesis by simp
    qed
    with xy False Cons.prems(2)
    have "sorted_wrt (\<lambda>a b. Less sv a b = Some False) (x # y # ys)" by simp
    with xy False show ?thesis
      by (intro exI [of _ "x # y # ys"]) simp
  qed
qed

lemma insertionSort_above_HEAD:
  assumes sv: "semver_ok sv"
    and h: "Version_Name h = ''HEAD''"
    and xs: "\<forall>x \<in> set xs. NewVersion sv (Version_Name x) \<noteq> None"
    and ys: "\<forall>y \<in> set ys. NewVersion sv (Version_Name y) \<noteq> None"
    and sorted: "sorted_wrt (\<lambda>a b. Less sv a b = Some False) ys"
  shows "\<exists>zs. insertionSort (Less sv) (ys @ [h]) xs = Some (h # zs)
            \<and> mset zs = mset ys + mset xs
            \<and> sorted_wrt (\<lambda>a b. Less sv b a = Some False) zs"
  using xs ys sorted
proof (induction xs arbitrary: ys)
  case Nil
  then show ?case by (simp add: sorted_wrt_rev)
next
  case (Cons x xs)
  from Cons.prems have x: "NewVersion sv (Version_Name x) \<noteq> None" by simp
  from insertLeft_above_HEAD [OF sv h x Cons.prems(2) Cons.prems(3)]
  obtain ys' where ys': "insertLeft (Less sv) x (ys @ [h]) = Some (ys' @ [h])"
    "mset ys' = mset ys + {#x#}" "sorted_wrt (\<lambda>a b. Less sv a b = Some False) ys'"
    by auto
  from ys'(2) have "set_mset (mset ys') = set_mset (mset ys + {#x#})" by simp
  then have "set ys' = insert x (set ys)" by simp
  with Cons.prems x have valid: "\<forall>y \<in> set ys'. NewVersion sv (Version_Name y) \<noteq> None" by simp
  from Cons.prems have "\<forall>x \<in> set xs. NewVersion sv (Version_Name x) \<noteq> None" by simp
  from Cons.IH [OF this valid ys'(3)] ys'(1,2) show ?case by auto
qed



lemma tagsLoop_no_panic: "tagsLoop sv r iter result \<noteq> Inl MustParsePanic"
  by (induction sv r iter result rule: tagsLoop.induct) (simp_all split: option.splits)

lemma Stable_HEAD_keptTags:
  assumes "semver_ok sv"
  shows "\<exists>rest. Stable (Less sv)
                  (\<lparr>Version_Name = ''HEAD'', Version_Commit = head\<rparr> # keptTags sv r iter)
                = Some (\<lparr>Version_Name = ''HEAD'', Version_Commit = head\<rparr> # rest)
              \<and> mset rest = mset (keptTags sv r iter)
              \<and> sorted_wrt (\<lambda>a b. Less sv b a = Some False) rest"
proof -
  let ?h = "\<lparr>Version_Name = ''HEAD'', Version_Commit = head\<rparr>"
  have valid: "\<forall>x \<in> set (keptTags sv r iter). NewVersion sv (Version_Name x) \<noteq> None"
    using keptTags_valid by blast
  have "Version_Name ?h = ''HEAD''" by simp
  from insertionSort_above_HEAD [OF assms this valid, of "[]"]
  obtain zs where "insertionSort (Less sv) [?h] (keptTags sv r iter) = Some (?h # zs)"
    "mset zs = mset (keptTags sv r iter)" "sorted_wrt (\<lambda>a b. Less sv b a = Some False) zs"
    by auto
  then show ?thesis by (simp add: Stable_def)
qed

lemma Versions_Inr:
  assumes "Versions sv PlainOpen path = Inr vs"
  shows "\<exists>r head iter out.
           PlainOpen path = Inr r \<and> Repository_Head r = Inr head \<and> Repository_Tags r = Inr iter
           \<and> tagsLoop sv r iter [\<lparr>Version_Name = ''HEAD'', Version_Commit = head\<rparr>] = Inr out
           \<and> Stable (Less sv) out = Some vs"
  using assms
  by (simp add: Versions_def split: sum.splits option.splits if_splits)

lemma Versions_no_panic:
  assumes "semver_ok sv"
  shows "Versions sv PlainOpen path \<noteq> Inl MustParsePanic"
proof (cases "PlainOpen path")
  case (Inl e)
  then show ?thesis by (simp add: Versions_def)
next
  case r: (Inr r)
  show ?thesis
  proof (cases "Repository_Head r")
    case (Inl e)
    with r show ?thesis by (simp add: Versions_def)
  next
    case head: (Inr head)
    show ?thesis
    proof (cases "Repository_Tags r")
      case (Inl e)
      with r head show ?thesis by (simp add: Versions_def)
    next
      case tags: (Inr iter)
      show ?thesis
      proof (cases "tagsLoop sv r iter [\<lparr>Version_Name = ''HEAD'', Version_Commit = head\<rparr>]")
        case (Inl e)
        with tagsLoop_no_panic [of sv r iter "[\<lparr>Version_Name = ''HEAD'', Version_Commit = head\<rparr>]"]
        have "e \<noteq> MustParsePanic" by simp
        with r head tags Inl show ?thesis by (simp add: Versions_def)
      next
        case (Inr out)
        from tagsLoop_Inr [OF Inr]
        have "out = \<lparr>Version_Name = ''HEAD'', Version_Commit = head\<rparr> # keptTags sv r iter"
          by simp
        with Stable_HEAD_keptTags [OF assms, of head r iter]
        obtain rest where "Stable (Less sv) out
            = Some (\<lparr>Version_Name = ''HEAD'', Version_Commit = head\<rparr> # rest)"
          by auto
        with r head tags Inr show ?thesis by (simp add: Versions_def)
      qed
    qed
  qed
qed

text \<open>
  C9. Whenever \<^verbatim>\<open>Versions\<close> returns a list, its first entry is the version named \<^verbatim>\<open>HEAD\<close>
  with the hash of the head reference; the other entries are exactly the tags the iterator
  yields that resolve to a commit and whose name parses as a semantic version, every one of
  them such a tag, and they stand in ascending order: no entry is \<^verbatim>\<open>Less\<close> than an entry
  before it. \<^verbatim>\<open>semver.MustParse\<close> never panics during the sort. This holds for every semver
  library in which \<^verbatim>\<open>HEAD\<close> is not a version and \<^verbatim>\<open>LessThan\<close> is a strict weak order.
\<close>

theorem Versions_HEAD_first_then_ascending:
  assumes "semver_ok sv"
  shows "Versions sv PlainOpen path \<noteq> Inl MustParsePanic
    \<and> (\<forall>vs. Versions sv PlainOpen path = Inr vs \<longrightarrow>
          (\<exists>r head iter rest.
             PlainOpen path = Inr r \<and> Repository_Head r = Inr head \<and> Repository_Tags r = Inr iter
             \<and> vs = \<lparr>Version_Name = ''HEAD'', Version_Commit = head\<rparr> # rest
             \<and> mset rest = mset (keptTags sv r iter)
             \<and> (\<forall>v \<in> set rest. NewVersion sv (Version_Name v) \<noteq> None
                                \<and> Repository_CommitObject r (Version_Commit v) = None)
             \<and> sorted_wrt (\<lambda>a b. Less sv b a = Some False) rest))"
proof (intro conjI allI impI)
  show "Versions sv PlainOpen path \<noteq> Inl MustParsePanic"
    by (rule Versions_no_panic [OF assms])
next
  fix vs
  assume "Versions sv PlainOpen path = Inr vs"
  from Versions_Inr [OF this]
  obtain r head iter out where run: "PlainOpen path = Inr r" "Repository_Head r = Inr head"
      "Repository_Tags r = Inr iter"
      "tagsLoop sv r iter [\<lparr>Version_Name = ''HEAD'', Version_Commit = head\<rparr>] = Inr out"
      "Stable (Less sv) out = Some vs"
    by blast
  from tagsLoop_Inr [OF run(4)]
  have out: "out = \<lparr>Version_Name = ''HEAD'', Version_Commit = head\<rparr> # keptTags sv r iter"
    by simp
  from Stable_HEAD_keptTags [OF assms, of head r iter] run(5) out obtain rest where
    rest: "vs = \<lparr>Version_Name = ''HEAD'', Version_Commit = head\<rparr> # rest"
      "mset rest = mset (keptTags sv r iter)"
      "sorted_wrt (\<lambda>a b. Less sv b a = Some False) rest"
    by auto
  from rest(2) have "set rest = set (keptTags sv r iter)" by (rule mset_eq_setD)
  then have valid: "\<forall>v \<in> set rest. NewVersion sv (Version_Name v) \<noteq> None
                                \<and> Repository_CommitObject r (Version_Commit v) = None"
    using keptTags_valid by blast
  from run(1-3) rest valid
  show "\<exists>r head iter rest.
             PlainOpen path = Inr r \<and> Repository_Head r = Inr head \<and> Repository_Tags r = Inr iter
             \<and> vs = \<lparr>Version_Name = ''HEAD'', Version_Commit = head\<rparr> # rest
             \<and> mset rest = mset (keptTags sv r iter)
             \<and> (\<forall>v \<in> set rest. NewVersion sv (Version_Name v) \<noteq> None
                                \<and> Repository_CommitObject r (Version_Commit v) = None)
             \<and> sorted_wrt (\<lambda>a b. Less sv b a = Some False) rest"
    by blast
qed

theorem Versions_HEAD_first_then_ascending_witness:
  "semver_ok toySemver
   \<and> Versions toySemver toyOpen ''/repo'' \<noteq> Inl MustParsePanic
   \<and> Versions toySemver toyOpen ''/repo'' =
       Inr [\<lparr>Version_Name = ''HEAD'', Version_Commit = ''c4''\<rparr>,
            \<lparr>Version_Name = ''1.0.0'', Version_Commit = ''c1''\<rparr>,
            \<lparr>Version_Name = ''v1.2.0'', Version_Commit = ''c2''\<rparr>,
            \<lparr>Version_Name = ''2.0.0'', Version_Commit = ''c3''\<rparr>]
   \<and> sorted_wrt (\<lambda>a b. Less toySemver b a = Some False)
        [\<lparr>Version_Name = ''1.0.0'', Version_Commit = ''c1''\<rparr>,
         \<lparr>Version_Name = ''v1.2.0'', Version_Commit = ''c2''\<rparr>,
         \<lparr>Version_Name = ''2.0.0'', Version_Commit = ''c3''\<rparr>]"
proof -
  have ok: "semver_ok toySemver"
    by (simp add: semver_ok_def toySemver_def)
  have run: "Versions toySemver toyOpen ''/repo'' =
       Inr [\<lparr>Version_Name = ''HEAD'', Version_Commit = ''c4''\<rparr>,
            \<lparr>Version_Name = ''1.0.0'', Version_Commit = ''c1''\<rparr>,
            \<lparr>Version_Name = ''v1.2.0'', Version_Commit = ''c2''\<rparr>,
            \<lparr>Version_Name = ''2.0.0'', Version_Commit = ''c3''\<rparr>]"
    by (simp add: Versions_def toyOpen_def toyRepository_def toySemver_def Stable_def Less_def)
  from Versions_HEAD_first_then_ascending [OF ok, of toyOpen "''/repo''"] run
  have "\<exists>rest. [\<lparr>Version_Name = ''HEAD'', Version_Commit = ''c4''\<rparr>,
            \<lparr>Version_Name = ''1.0.0'', Version_Commit = ''c1''\<rparr>,
            \<lparr>Version_Name = ''v1.2.0'', Version_Commit = ''c2''\<rparr>,
            \<lparr>Version_Name = ''2.0.0'', Version_Commit = ''c3''\<rparr>]
          = \<lparr>Version_Name = ''HEAD'', Version_Commit = ''c4''\<rparr> # rest
        \<and> sorted_wrt (\<lambda>a b. Less toySemver b a = Some False) rest"
    by (auto simp: toyOpen_def toyRepository_def)
  then have "sorted_wrt (\<lambda>a b. Less toySemver b a = Some False)
        [\<lparr>Version_Name = ''1.0.0'', Version_Commit = ''c1''\<rparr>,
         \<lparr>Version_Name = ''v1.2.0'', Version_Commit = ''c2''\<rparr>,
         \<lparr>Version_Name = ''2.0.0'', Version_Commit = ''c3''\<rparr>]"
    by auto
  with ok run show ?thesis by simp
qed

end
